theory Spec2Isabelle
  imports Complex_Main "HOL-Library.AList"
begin

section \<open>JavaScript strings and numbers\<close>

text \<open>
  Strings are \<^typ>\<open>string\<close>; every string the modelled code builds is ASCII.
  Integers are \<^typ>\<open>int\<close> and \<^typ>\<open>nat\<close>: the numbers the code renders
  (\<^verbatim>\<open>Date.now()\<close>, loop counters, floors of scaled random numbers) are integers far
  below the range where JavaScript switches to exponent notation, so \<^verbatim>\<open>String(n)\<close> is
  the decimal numeral.
\<close>

definition digit_char :: "nat \<Rightarrow> char" where
  "digit_char d = char_of (48 + d)"

function toString_nat :: "nat \<Rightarrow> string" where
  "toString_nat n =
     (if n < 10 then [digit_char n]
      else toString_nat (n div 10) @ [digit_char (n mod 10)])"
  by pat_completeness auto
termination
  by (relation "measure id") auto

declare toString_nat.simps [simp del]

definition toString_int :: "int \<Rightarrow> string" where
  "toString_int i =
     (if i < 0 then CHR ''-'' # toString_nat (nat (- i)) else toString_nat (nat i))"

text \<open>\<^verbatim>\<open>s.slice(-k)\<close>: the last \<open>k\<close> characters, the whole string when it is shorter.\<close>

definition slice_last :: "nat \<Rightarrow> string \<Rightarrow> string" where
  "slice_last k s = drop (length s - k) s"

text \<open>
  \<^verbatim>\<open>s.substring(a, b)\<close> for non-negative integer bounds: both are clamped to the length
  and swapped when \<open>a > b\<close>. \<^verbatim>\<open>s.substring(a)\<close> runs to the end.
\<close>

definition substring :: "nat \<Rightarrow> nat \<Rightarrow> string \<Rightarrow> string" where
  "substring a b s = take (max a b - min a b) (drop (min a b) s)"

definition substring_from :: "nat \<Rightarrow> string \<Rightarrow> string" where
  "substring_from a s = drop a s"

text \<open>
  A string has at most \<open>maxStringLength\<close> characters: \<open>2 ^ 29 - 24\<close> in V8, the engine
  of the browsers the runner drives by default. Building a longer one raises
  \<^verbatim>\<open>RangeError\<close>.
\<close>

definition maxStringLength :: nat where
  "maxStringLength = 536870888"

text \<open>
  A number that is a parameter of the code, and need not be an integer: a finite
  number is a rational (every finite floating-point number is one), and there are
  \<^verbatim>\<open>NaN\<close> and the two infinities. \<open>js_less a b\<close> is \<^verbatim>\<open>a < b\<close>, false whenever
  \<^verbatim>\<open>NaN\<close> takes part; \<open>Math_max a b\<close> is \<^verbatim>\<open>Math.max(a, b)\<close>, which is
  \<^verbatim>\<open>NaN\<close> when an argument is.
\<close>

datatype number = Finite rat | NaN | Infinity | NegInfinity

fun js_less :: "number \<Rightarrow> number \<Rightarrow> bool" where
  "js_less NaN b = False"
| "js_less a NaN = False"
| "js_less (Finite x) (Finite y) = (x < y)"
| "js_less (Finite x) Infinity = True"
| "js_less (Finite x) NegInfinity = False"
| "js_less Infinity b = False"
| "js_less NegInfinity (Finite y) = True"
| "js_less NegInfinity Infinity = True"
| "js_less NegInfinity NegInfinity = False"

fun Math_max :: "number \<Rightarrow> number \<Rightarrow> number" where
  "Math_max NaN b = NaN"
| "Math_max a NaN = NaN"
| "Math_max Infinity b = Infinity"
| "Math_max a Infinity = Infinity"
| "Math_max NegInfinity b = b"
| "Math_max a NegInfinity = a"
| "Math_max (Finite x) (Finite y) = Finite (max x y)"

text \<open>\<^verbatim>\<open>s.length\<close> as a number.\<close>

definition length_of :: "string \<Rightarrow> number" where
  "length_of s = Finite (of_nat (length s))"

text \<open>
  A number used as a position in the string \<open>s\<close> (the argument of
  \<^verbatim>\<open>substring\<close>): truncated to an integer, \<^verbatim>\<open>NaN\<close> read as 0, then clamped to
  \<open>0 \<dots> s.length\<close>.
\<close>

fun position :: "number \<Rightarrow> string \<Rightarrow> nat" where
  "position (Finite x) s = min (nat \<lfloor>x\<rfloor>) (length s)"
| "position NaN s = 0"
| "position Infinity s = length s"
| "position NegInfinity s = 0"

definition is_upper :: "char \<Rightarrow> bool" where
  "is_upper c = (65 \<le> (of_char c :: nat) \<and> (of_char c :: nat) \<le> 90)"

definition is_lower :: "char \<Rightarrow> bool" where
  "is_lower c = (97 \<le> (of_char c :: nat) \<and> (of_char c :: nat) \<le> 122)"

definition is_digit :: "char \<Rightarrow> bool" where
  "is_digit c = (48 \<le> (of_char c :: nat) \<and> (of_char c :: nat) \<le> 57)"

definition is_special :: "char \<Rightarrow> bool" where
  "is_special c = (\<not> is_upper c \<and> \<not> is_lower c \<and> \<not> is_digit c)"

section \<open>JavaScript values and objects\<close>

text \<open>
  Values are finite trees: no cycles, no \<^verbatim>\<open>BigInt\<close>, numbers are integers. An object
  is its list of own enumerable properties in insertion order; where a key is listed
  twice the first binding is the property. \<open>JNative\<close> stands for a built-in function or
  object of the runtime, known by name only.
\<close>

datatype jsval =
    JUndefined
  | JNull
  | JBool bool
  | JNum int
  | JStr string
  | JArr "jsval list"
  | JObj "(string \<times> jsval) list"
  | JNative string

type_synonym obj = "(string \<times> jsval) list"

fun truthy :: "jsval \<Rightarrow> bool" where
  "truthy JUndefined = False"
| "truthy JNull = False"
| "truthy (JBool b) = b"
| "truthy (JNum n) = (n \<noteq> 0)"
| "truthy (JStr s) = (s \<noteq> [])"
| "truthy (JArr xs) = True"
| "truthy (JObj kvs) = True"
| "truthy (JNative f) = True"

text \<open>\<^verbatim>\<open>a || b\<close>\<close>

definition js_or :: "jsval \<Rightarrow> jsval \<Rightarrow> jsval" where
  "js_or a b = (if truthy a then a else b)"

text \<open>
  Every object written as a literal inherits from \<^verbatim>\<open>Object.prototype\<close>, whose members
  are found by a property read that misses the own properties. These are the members
  the ECMAScript standard (with its Annex B) gives it; all are functions, but
  \<^verbatim>\<open>__proto__\<close>, which reads as the prototype object itself.
\<close>

definition Object_prototype :: obj where
  "Object_prototype =
     [(''constructor'', JNative ''Object''),
      (''__defineGetter__'', JNative ''Object.prototype.__defineGetter__''),
      (''__defineSetter__'', JNative ''Object.prototype.__defineSetter__''),
      (''hasOwnProperty'', JNative ''Object.prototype.hasOwnProperty''),
      (''__lookupGetter__'', JNative ''Object.prototype.__lookupGetter__''),
      (''__lookupSetter__'', JNative ''Object.prototype.__lookupSetter__''),
      (''isPrototypeOf'', JNative ''Object.prototype.isPrototypeOf''),
      (''propertyIsEnumerable'', JNative ''Object.prototype.propertyIsEnumerable''),
      (''toString'', JNative ''Object.prototype.toString''),
      (''valueOf'', JNative ''Object.prototype.valueOf''),
      (''__proto__'', JNative ''Object.prototype''),
      (''toLocaleString'', JNative ''Object.prototype.toLocaleString'')]"

text \<open>\<^verbatim>\<open>o[k]\<close> and \<^verbatim>\<open>o.k\<close> on a plain object: own property, else inherited, else undefined.\<close>

definition obj_get :: "obj \<Rightarrow> string \<Rightarrow> jsval" where
  "obj_get kvs k =
     (case map_of kvs k of
        Some v \<Rightarrow> v
      | None \<Rightarrow> (case map_of Object_prototype k of Some v \<Rightarrow> v | None \<Rightarrow> JUndefined))"

text \<open>
  \<^verbatim>\<open>{ ...target, ...source }\<close>: the own enumerable properties of the source are written
  onto the target in order; an existing key keeps its position and takes the new value,
  a new key is appended.
\<close>

definition spread :: "obj \<Rightarrow> obj \<Rightarrow> obj" where
  "spread target source =
     fold (\<lambda>(k, v) acc. AList.update k v acc) (AList.clearjunk source) target"

text \<open>
  The own enumerable properties that \<^verbatim>\<open>...v\<close> copies from an arbitrary value: those of
  an object, the indexed elements of an array or string, none otherwise.
\<close>

fun enumerable_props :: "jsval \<Rightarrow> obj" where
  "enumerable_props (JObj kvs) = kvs"
| "enumerable_props (JArr xs) = map (\<lambda>i. (toString_nat i, xs ! i)) [0..<length xs]"
| "enumerable_props (JStr s) = map (\<lambda>i. (toString_nat i, JStr [s ! i])) [0..<length s]"
| "enumerable_props v = []"

text \<open>
  Code that fails raises; the raise is the \<open>Inl\<close> branch of the result, with the
  error raised. An assertion error carries what the assertion library reports: the
  property it missed, the two values it found unequal, or the field it found null or
  undefined.
\<close>

datatype assertion =
    TargetNullish
  | MissingProperty string
  | NotEqual jsval jsval
  | IsNull string
  | IsUndefined string

datatype error =
    TransportError string
  | StatusCodeError int
  | AssertionError assertion
  | RangeError
  | TypeError

section \<open>The environment: clock, random numbers, network\<close>

text \<open>
  \<^verbatim>\<open>Math.random()\<close> returns a floating-point number in \<open>[0, 1)\<close>. The code never
  uses the number itself, only two renderings of it, and the model takes a draw as these
  two observations: \<open>str36\<close> is \<^verbatim>\<open>r.toString(36)\<close> (\<^verbatim>\<open>"0"\<close>, or \<^verbatim>\<open>"0."\<close> and
  digits of \<^verbatim>\<open>0-9a-z\<close>), and \<open>scaled n\<close> is \<^verbatim>\<open>Math.floor(r * n)\<close>. As the number is
  below 1, that floor is below \<open>n\<close>: \<open>Math_random\<close> reads what the world supplies
  modulo \<open>n\<close>.

  The world holds what the successive calls of \<^verbatim>\<open>Date.now()\<close> and
  \<^verbatim>\<open>Math.random()\<close> will return, and how the network will treat the successive
  requests: \<open>net w k req\<close> is the fate of the \<open>k\<close>-th request from now when it carries
  the options \<open>req\<close>, a transport failure (\<open>Inl\<close>, with its reason) or the reply of the
  server. A call takes the first and leaves the rest. \<open>apiBaseUrl\<close> is
  \<^verbatim>\<open>Cypress.env('apiBaseUrl')\<close>.
\<close>

record draw =
  str36 :: string
  scaled :: "nat \<Rightarrow> nat"

record http_reply =
  code :: int
  reply_headers :: obj
  reply_body :: jsval

record world =
  clock :: "nat \<Rightarrow> int"
  rng :: "nat \<Rightarrow> draw"
  net :: "nat \<Rightarrow> jsval \<Rightarrow> string + http_reply"
  apiBaseUrl :: string

definition Date_now :: "world \<Rightarrow> int \<times> world" where
  "Date_now w = (clock w 0, w\<lparr>clock := (\<lambda>k. clock w (Suc k))\<rparr>)"

definition Math_random :: "world \<Rightarrow> draw \<times> world" where
  "Math_random w =
     ((rng w 0)\<lparr>scaled := (\<lambda>n. scaled (rng w 0) n mod n)\<rparr>,
      w\<lparr>rng := (\<lambda>k. rng w (Suc k))\<rparr>)"

section \<open>TestDataGenerator\<close>

text \<open>
  \<^verbatim>\<open>generateUniqueEmail(prefix = 'test', domain = 'example.com')\<close>. Default arguments
  are supplied by the caller in the model.
\<close>

definition generateUniqueEmail :: "string \<Rightarrow> string \<Rightarrow> world \<Rightarrow> string \<times> world" where
  "generateUniqueEmail prefix domain w =
     (case Date_now w of (timestamp, w1) \<Rightarrow>
      case Math_random w1 of (r, w2) \<Rightarrow>
        let randomString = substring_from 7 (str36 r)
        in (prefix @ ''+'' @ toString_int timestamp @ ''+'' @ randomString @ ''@'' @ domain,
            w2))"

text \<open>
  The padding loop of \<^verbatim>\<open>generateSecurePassword\<close>:
  \<^verbatim>\<open>while (password.length < Math.max(8, length))
    password += 'a' + Math.floor(Math.random() * 10) + '!'\<close>.
  The concatenation raises \<^verbatim>\<open>RangeError\<close> when its result would be longer than a
  string can be. So the loop ends for every \<open>length\<close>: each round makes the password
  longer, and it cannot pass that bound.
\<close>

function pad_loop :: "number \<Rightarrow> string \<Rightarrow> world \<Rightarrow> error + string \<times> world" where
  "pad_loop len password w =
     (if js_less (length_of password) (Math_max (Finite 8) len)
      then (case Math_random w of (r, w') \<Rightarrow>
              if maxStringLength < length (password @ ''a'' @ toString_nat (scaled r 10) @ ''!'')
              then Inl RangeError
              else pad_loop len (password @ ''a'' @ toString_nat (scaled r 10) @ ''!'') w')
      else Inr (password, w))"
  by pat_completeness auto
termination
  by (relation "measure (\<lambda>(len, password, w). Suc maxStringLength - length password)") auto

declare pad_loop.simps [simp del]

text \<open>
  \<^verbatim>\<open>generateSecurePassword(length = 12, options = {})\<close>, for a number \<open>length\<close>.
  The type of \<open>options\<close> is left open: the body never reads it.
\<close>

definition generateSecurePassword :: "number \<Rightarrow> 'o \<Rightarrow> world \<Rightarrow> error + string \<times> world" where
  "generateSecurePassword len options w =
     (case Date_now w of (now, w1) \<Rightarrow>
      let timestamp = slice_last 4 (toString_int now) in
      case Math_random w1 of (r, w2) \<Rightarrow>
      let randomSuffix = substring 2 4 (str36 r);
          password = ''Test'' @ timestamp @ ''!'' @ randomSuffix
      in case pad_loop len password w2 of
           Inl e \<Rightarrow> Inl e
         | Inr (password', w3) \<Rightarrow>
             Inr (if js_less len (length_of password') \<and> js_less (Finite 8) len
                  then substring 0 (position len password') password' else password', w3))"



text \<open>
  \<^verbatim>\<open>xs[i]\<close> interpolated into a template literal: an index out of range reads
  \<^verbatim>\<open>undefined\<close>, which is rendered as the word.
\<close>

definition interpolate_at :: "string list \<Rightarrow> nat \<Rightarrow> string" where
  "interpolate_at xs i = (if i < length xs then xs ! i else ''undefined'')"

definition generateCompanyName :: "world \<Rightarrow> string \<times> world" where
  "generateCompanyName w =
     (let prefixes = [''Tech'', ''Global'', ''Digital'', ''Smart'', ''Innovation'', ''Future'',
                      ''Advanced''];
          suffixes = [''Solutions'', ''Systems'', ''Corp'', ''Ltd'', ''Inc'', ''Technologies'',
                      ''Enterprises'']
      in case Math_random w of (r1, w1) \<Rightarrow>
         case Math_random w1 of (r2, w2) \<Rightarrow>
           (interpolate_at prefixes (scaled r1 (length prefixes)) @ '' '' @
            interpolate_at suffixes (scaled r2 (length suffixes)), w2))"

text \<open>\<^verbatim>\<open>generatePhoneNumber(format = 'US')\<close>\<close>

definition generatePhoneNumber :: "string \<Rightarrow> world \<Rightarrow> string \<times> world" where
  "generatePhoneNumber format w =
     (if format = ''US'' then
        (case Math_random w of (r1, w1) \<Rightarrow>
         case Math_random w1 of (r2, w2) \<Rightarrow>
         case Math_random w2 of (r3, w3) \<Rightarrow>
           (''+1-'' @ toString_nat (scaled r1 900 + 100) @ ''-'' @
            toString_nat (scaled r2 900 + 100) @ ''-'' @
            toString_nat (scaled r3 9000 + 1000), w3))
      else if format = ''UK'' then
        (case Math_random w of (r1, w1) \<Rightarrow>
         case Math_random w1 of (r2, w2) \<Rightarrow>
           (''+44-'' @ toString_nat (scaled r1 9000 + 1000) @ ''-'' @
            toString_nat (scaled r2 900000 + 100000), w2))
      else
        (case Math_random w of (r1, w1) \<Rightarrow>
         case Math_random w1 of (r2, w2) \<Rightarrow>
           (''+1-555-'' @ toString_nat (scaled r1 900 + 100) @ ''-'' @
            toString_nat (scaled r2 9000 + 1000), w2)))"

text \<open>
  \<^verbatim>\<open>overrides.firstName\<close> and \<^verbatim>\<open>overrides.lastName\<close> on a value that is not null or
  undefined: no built-in prototype has a member of either name, so the read finds an own
  property of an object, or the member of that name that \<^verbatim>\<open>Object.prototype\<close> has, and
  is undefined on a primitive, an array or a function.
\<close>

fun named_member :: "jsval \<Rightarrow> string \<Rightarrow> jsval" where
  "named_member (JObj kvs) k = obj_get kvs k"
| "named_member v k = JUndefined"

text \<open>
  \<^verbatim>\<open>generateUserData(overrides = {})\<close>: the default stands in for an undefined
  argument only, and the first read of a property of \<^verbatim>\<open>null\<close> raises
  \<^verbatim>\<open>TypeError\<close>. The properties of the literal are evaluated in the order they are
  written.
\<close>

definition generateUserData :: "jsval \<Rightarrow> world \<Rightarrow> error + jsval \<times> world" where
  "generateUserData overrides_arg w =
     (let overrides = (if overrides_arg = JUndefined then JObj [] else overrides_arg)
      in if overrides = JNull then Inl TypeError
         else
           let firstName = js_or (named_member overrides ''firstName'') (JStr ''TestUser'');
               lastName = js_or (named_member overrides ''lastName'') (JStr ''Automated'')
           in case generateUniqueEmail ''test'' ''example.com'' w of (email, w1) \<Rightarrow>
              (case generateSecurePassword (Finite 12) (JObj []) w1 of
                 Inl e \<Rightarrow> Inl e
               | Inr (password, w2) \<Rightarrow>
                  (case generateCompanyName w2 of (companyName, w3) \<Rightarrow>
                   case generatePhoneNumber ''US'' w3 of (phone, w4) \<Rightarrow>
                     Inr (JObj (spread
                             [(''email'', JStr email),
                              (''password'', JStr password),
                              (''confirmPassword'', JNull),
                              (''firstName'', firstName),
                              (''lastName'', lastName),
                              (''companyName'', JStr companyName),
                              (''phone'', JStr phone)]
                             (enumerable_props overrides)), w4))))"

section \<open>ApiHelpers: the malformed-payload catalog\<close>

definition templates :: obj where
  "templates =
     [(''emptyObject'', JObj []),
      (''nullValues'', JObj [(''userName'', JNull), (''password'', JNull)]),
      (''invalidTypes'', JObj [(''userName'', JNum 12345), (''password'', JBool True)]),
      (''missingUserName'', JObj [(''password'', JStr ''ValidPassword123!'')]),
      (''missingPassword'', JObj [(''userName'', JStr ''validUser'')]),
      (''emptyStrings'', JObj [(''userName'', JStr []), (''password'', JStr [])]),
      (''tooLong'', JObj [(''userName'', JStr (replicate 1000 CHR ''a'')),
                          (''password'', JStr (replicate 1000 CHR ''b''))]),
      (''specialChars'',
         JObj [(''userName'', JStr (''<script>alert('' @ [CHR 0x22] @ ''xss'' @ [CHR 0x22] @
                                    '')</script>'')),
               (''password'', JStr ''DROP TABLE users;'')])]"

text \<open>\<^verbatim>\<open>return templates[type] || templates.emptyObject\<close>\<close>

definition createMalformedData :: "string \<Rightarrow> jsval" where
  "createMalformedData type = js_or (obj_get templates type) (obj_get templates ''emptyObject'')"

section \<open>The custom commands: request, validation, rate-limit probe\<close>

definition toUpperCase_char :: "char \<Rightarrow> char" where
  "toUpperCase_char c = (if is_lower c then char_of ((of_char c :: nat) - 32) else c)"

text \<open>\<^verbatim>\<open>s.toUpperCase()\<close> on an ASCII string.\<close>

definition toUpperCase :: "string \<Rightarrow> string" where
  "toUpperCase s = map toUpperCase_char s"

definition defaultHeaders :: obj where
  "defaultHeaders =
     [(''Content-Type'', JStr ''application/json''),
      (''Accept'', JStr ''application/json''),
      (''User-Agent'', JStr ''Cypress-Test-Runner'')]"

text \<open>
  The object literal \<^verbatim>\<open>requestOptions\<close> of \<^verbatim>\<open>apiRequest\<close>, with \<open>baseUrl\<close> for
  \<^verbatim>\<open>Cypress.env('apiBaseUrl')\<close>: four properties are written, then the caller's
  \<open>options\<close> are spread over them.
\<close>

definition requestOptions :: "string \<Rightarrow> string \<Rightarrow> string \<Rightarrow> obj \<Rightarrow> obj" where
  "requestOptions baseUrl meth endpoint options =
     (let url = baseUrl @ endpoint
      in spread
           [(''method'', JStr (toUpperCase meth)),
            (''url'', JStr url),
            (''headers'',
               JObj (spread defaultHeaders (enumerable_props (obj_get options ''headers'')))),
            (''failOnStatusCode'', JBool False)]
           options)"

text \<open>
  Modelled from the spec: \<^verbatim>\<open>cy.request\<close>, the request primitive of the test framework,
  which is not part of the repository. The spec gives it two ways to fail: a
  transport-level failure, and, unless told otherwise, a response whose status is not
  2xx or 3xx. It is told otherwise by the option \<^verbatim>\<open>failOnStatusCode\<close>, which defaults
  to true when the options do not define it. Otherwise it yields the response, the
  spec's ProbeResult: status, headers and body.
\<close>

definition failOnStatusCode :: "obj \<Rightarrow> bool" where
  "failOnStatusCode opts =
     (case map_of opts ''failOnStatusCode'' of
        None \<Rightarrow> True
      | Some JUndefined \<Rightarrow> True
      | Some v \<Rightarrow> truthy v)"

definition isOkStatusCode :: "int \<Rightarrow> bool" where
  "isOkStatusCode s = (200 \<le> s \<and> s < 400)"

definition response_of :: "http_reply \<Rightarrow> jsval" where
  "response_of rp =
     JObj [(''status'', JNum (code rp)),
           (''headers'', JObj (reply_headers rp)),
           (''body'', reply_body rp)]"

definition cy_request :: "obj \<Rightarrow> world \<Rightarrow> error + jsval \<times> world" where
  "cy_request opts w =
     (case net w 0 (JObj opts) of
        Inl reason \<Rightarrow> Inl (TransportError reason)
      | Inr rp \<Rightarrow>
          if failOnStatusCode opts \<and> \<not> isOkStatusCode (code rp)
          then Inl (StatusCodeError (code rp))
          else Inr (response_of rp, w\<lparr>net := (\<lambda>k. net w (Suc k))\<rparr>))"

text \<open>
  \<^verbatim>\<open>apiRequest(method, endpoint, options = {})\<close>, for strings \<open>method\<close> and
  \<open>endpoint\<close> and an object \<open>options\<close>. The calls of \<^verbatim>\<open>cy.log\<close> write to the
  runner's log and have no part in the result: they are left out. (The values of the
  model can always be printed by \<^verbatim>\<open>JSON.stringify\<close>.) The callback of \<^verbatim>\<open>then\<close>
  hands the response on unchanged.
\<close>

definition apiRequest :: "string \<Rightarrow> string \<Rightarrow> obj \<Rightarrow> world \<Rightarrow> error + jsval \<times> world" where
  "apiRequest meth endpoint options w =
     cy_request (requestOptions (apiBaseUrl w) meth endpoint options) w"

text \<open>
  The options that leave the suppression of status failures in place: they do not define
  \<^verbatim>\<open>failOnStatusCode\<close>, or define it as a falsy value other than undefined.
\<close>

definition leaves_failOnStatusCode_off :: "obj \<Rightarrow> bool" where
  "leaves_failOnStatusCode_off options =
     (case map_of options ''failOnStatusCode'' of
        None \<Rightarrow> True
      | Some v \<Rightarrow> v \<noteq> JUndefined \<and> \<not> truthy v)"

subsection \<open>validateResponseSchema\<close>








text \<open>Statements in sequence: the first that raises ends the run.\<close>

definition and_then :: "error + unit \<Rightarrow> error + 'a \<Rightarrow> error + 'a" where
  "and_then a b = (case a of Inl e \<Rightarrow> Inl e | Inr u \<Rightarrow> b)"












fun first_unmet :: "assertion option list \<Rightarrow> error + unit" where
  "first_unmet [] = Inr ()"
| "first_unmet (None # cs) = first_unmet cs"
| "first_unmet (Some a # cs) = Inl (AssertionError a)"



subsection \<open>testRateLimit\<close>











subsection \<open>Concrete worlds\<close>

text \<open>
  Worlds for the examples below. In \<open>w0\<close> the clock advances by one millisecond per
  reading and every random number is \<open>0.5\<close> (\<^verbatim>\<open>"0.i"\<close> in base 36); the network
  refuses every connection. In \<open>w404\<close> the server answers every request with status
  404. In \<open>w_same_ms\<close> the clock stands still, and the random numbers are \<open>0.5\<close> and
  then \<open>0.25\<close> (\<^verbatim>\<open>"0.9"\<close>). In \<open>w_limited\<close> the clock stands still too, and the server
  accepts the first request (201) and turns every later one away (429).
\<close>

definition w0 :: world where
  "w0 = \<lparr>clock = (\<lambda>k. 1700000000000 + int k),
         rng = (\<lambda>k. \<lparr>str36 = ''0.i'', scaled = (\<lambda>n. n div 2)\<rparr>),
         net = (\<lambda>k req. Inl ''ECONNREFUSED''),
         apiBaseUrl = ''https://api.example.com''\<rparr>"

definition w404 :: world where
  "w404 = \<lparr>clock = (\<lambda>k. 1700000000000 + int k),
         rng = (\<lambda>k. \<lparr>str36 = ''0.i'', scaled = (\<lambda>n. n div 2)\<rparr>),
         net = (\<lambda>k req. Inr \<lparr>code = 404, reply_headers = [], reply_body = JObj []\<rparr>),
         apiBaseUrl = ''https://api.example.com''\<rparr>"

definition w_same_ms :: world where
  "w_same_ms = \<lparr>clock = (\<lambda>k. 1700000000000),
         rng = (\<lambda>k. if k = 0 then \<lparr>str36 = ''0.i'', scaled = (\<lambda>n. n div 2)\<rparr>
                    else \<lparr>str36 = ''0.9'', scaled = (\<lambda>n. n div 4)\<rparr>),
         net = (\<lambda>k req. Inl ''ECONNREFUSED''),
         apiBaseUrl = ''https://api.example.com''\<rparr>"


section \<open>Properties of the generator\<close>

subsection \<open>Decimal numerals\<close>

lemma digit_char_eval:
  "digit_char 0 = CHR ''0''" "digit_char 1 = CHR ''1''" "digit_char 2 = CHR ''2''"
  "digit_char 3 = CHR ''3''" "digit_char 4 = CHR ''4''" "digit_char 5 = CHR ''5''"
  "digit_char 6 = CHR ''6''" "digit_char 7 = CHR ''7''" "digit_char 8 = CHR ''8''"
  "digit_char 9 = CHR ''9''" "digit_char (Suc 0) = CHR ''1''"
  by (simp_all add: digit_char_def char_of_def bit_Suc_0_iff)

lemma is_digit_digit_char: "d < 10 \<Longrightarrow> is_digit (digit_char d)"
  by (simp add: is_digit_def digit_char_def)

lemma toString_nat_nonempty: "toString_nat n \<noteq> []"
  by (subst toString_nat.simps) simp

lemma last_toString_nat: "last (toString_nat n) = digit_char (n mod 10)"
  by (subst toString_nat.simps) simp

lemma toString_int_nonempty: "toString_int i \<noteq> []"
  by (simp add: toString_int_def toString_nat_nonempty)

lemma last_toString_int_digit: "is_digit (last (toString_int i))"
  by (simp add: toString_int_def toString_nat_nonempty last_toString_nat is_digit_digit_char)

lemma slice_last_digit:
  assumes "s \<noteq> []" "is_digit (last s)"
  shows "\<exists>c \<in> set (slice_last 4 s). is_digit c"
proof -
  have lt: "length s - 4 < length s" using assms(1) by (cases s) auto
  have ne: "slice_last 4 s \<noteq> []" using lt by (simp add: slice_last_def)
  have "last (slice_last 4 s) = last s" using lt by (simp add: slice_last_def)
  with ne assms(2) show ?thesis using last_in_set by metis
qed

lemma length_slice_last: "length (slice_last k s) \<le> k"
  by (simp add: slice_last_def)

subsection \<open>Decimal numerals are injective\<close>

lemma of_char_digit_char: "d < 10 \<Longrightarrow> of_char (digit_char d) = 48 + d"
proof -
  assume d: "d < 10"
  have "of_char (digit_char d) = (48 + d) mod 256"
    by (simp only: digit_char_def of_char_of)
  also have "\<dots> = 48 + d" using d by simp
  finally show ?thesis .
qed

lemma digit_char_inj:
  assumes "a < 10" "b < 10" "digit_char a = digit_char b"
  shows "a = b"
proof -
  have "48 + a = (of_char (digit_char a) :: nat)"
    by (rule of_char_digit_char[OF assms(1), symmetric])
  also have "\<dots> = of_char (digit_char b)" by (simp only: assms(3))
  also have "\<dots> = 48 + b" by (rule of_char_digit_char[OF assms(2)])
  finally show ?thesis by simp
qed

lemma toString_nat_digits: "c \<in> set (toString_nat n) \<Longrightarrow> is_digit c"
proof (induction n arbitrary: c rule: toString_nat.induct)
  case (1 n)
  show ?case
  proof (cases "n < 10")
    case True
    with "1.prems" show ?thesis
      by (subst (asm) toString_nat.simps) (simp add: is_digit_digit_char)
  next
    case False
    with "1.prems" have "c \<in> set (toString_nat (n div 10)) \<or> c = digit_char (n mod 10)"
      by (subst (asm) toString_nat.simps) auto
    then show ?thesis using "1.IH"[OF False] by (auto simp: is_digit_digit_char)
  qed
qed

lemma toString_nat_inj: "toString_nat m = toString_nat n \<Longrightarrow> m = n"
proof (induction m arbitrary: n rule: toString_nat.induct)
  case (1 m)
  show ?case
  proof (cases "m < 10")
    case True
    show ?thesis
    proof (cases "n < 10")
      case True
      with \<open>m < 10\<close> "1.prems" show ?thesis
        by (simp add: toString_nat.simps[of m] toString_nat.simps[of n] digit_char_inj)
    next
      case False
      with \<open>m < 10\<close> "1.prems" show ?thesis
        using toString_nat_nonempty[of "n div 10"]
        by (simp add: toString_nat.simps[of m] toString_nat.simps[of n])
    qed
  next
    case False
    show ?thesis
    proof (cases "n < 10")
      case True
      with False "1.prems" show ?thesis
        using toString_nat_nonempty[of "m div 10"]
        by (simp add: toString_nat.simps[of m] toString_nat.simps[of n])
    next
      case nge: False
      from False nge "1.prems" have
        e: "toString_nat (m div 10) = toString_nat (n div 10)"
           "digit_char (m mod 10) = digit_char (n mod 10)"
        by (simp_all add: toString_nat.simps[of m] toString_nat.simps[of n])
      from "1.IH"[OF False e(1)] have "m div 10 = n div 10" .
      moreover from e(2) have "m mod 10 = n mod 10" by (simp add: digit_char_inj)
      ultimately show ?thesis by (metis div_mult_mod_eq)
    qed
  qed
qed

lemma minus_not_digit: "\<not> is_digit CHR ''-''"
  by (simp add: is_digit_def)

lemma plus_not_digit: "\<not> is_digit CHR ''+''"
  by (simp add: is_digit_def)

lemma toString_nat_no_minus: "toString_nat n \<noteq> CHR ''-'' # s"
  using toString_nat_digits[of "CHR ''-''" n] minus_not_digit by auto

lemma toString_int_inj: "toString_int i = toString_int j \<Longrightarrow> i = j"
proof -
  assume e: "toString_int i = toString_int j"
  consider "i < 0" "j < 0" | "i < 0" "\<not> j < 0" | "\<not> i < 0" "j < 0" | "\<not> i < 0" "\<not> j < 0"
    by blast
  then show "i = j"
  proof cases
    case 1
    with e have "nat (- i) = nat (- j)" by (simp add: toString_int_def toString_nat_inj)
    with 1 show ?thesis by simp
  next
    case 2
    with e show ?thesis
      using toString_nat_no_minus[of "nat j" "toString_nat (nat (- i))"]
      by (simp add: toString_int_def)
  next
    case 3
    with e show ?thesis
      using toString_nat_no_minus[of "nat i" "toString_nat (nat (- j))"]
      by (simp add: toString_int_def)
  next
    case 4
    with e have "nat i = nat j" by (simp add: toString_int_def toString_nat_inj)
    with 4 show ?thesis by simp
  qed
qed

lemma toString_int_no_plus: "CHR ''+'' \<notin> set (toString_int i)"
  using toString_nat_digits[of "CHR ''+''"] plus_not_digit
  by (auto simp: toString_int_def)

subsection \<open>Objects\<close>

lemma fold_update_distinct:
  "distinct (map fst xs) \<Longrightarrow>
   map_of (fold (\<lambda>(k, v) acc. AList.update k v acc) xs t) = map_of t ++ map_of xs"
proof (induction xs arbitrary: t)
  case Nil
  then show ?case by simp
next
  case (Cons x xs)
  obtain k v where x: "x = (k, v)" by (cases x)
  from Cons.prems x have k: "map_of xs k = None" and d: "distinct (map fst xs)"
    by (auto simp: map_of_eq_None_iff)
  have "map_of (fold (\<lambda>(k, v) acc. AList.update k v acc) (x # xs) t)
          = map_of (AList.update k v t) ++ map_of xs"
    using Cons.IH[OF d] x by simp
  also have "\<dots> = map_of t ++ map_of (x # xs)"
    using k by (auto simp: x update_conv' map_add_def fun_eq_iff split: option.splits)
  finally show ?case .
qed

lemma spread_Nil: "spread t [] = t"
  by (simp add: spread_def)

lemma map_of_spread: "map_of (spread t s) = map_of t ++ map_of s"
  unfolding spread_def
  by (simp add: fold_update_distinct map_of_clearjunk)

subsection \<open>Unique emails\<close>

lemma split_at_separator:
  "c \<notin> set a \<Longrightarrow> c \<notin> set b \<Longrightarrow> (a @ c # x = b @ c # y) = (a = b \<and> x = y)"
proof (induction a arbitrary: b)
  case Nil
  then show ?case by (cases b) auto
next
  case (Cons h a)
  then show ?case by (cases b) auto
qed

lemma generateUniqueEmail_eq:
  "fst (generateUniqueEmail prefix domain w) =
     prefix @ ''+'' @ toString_int (clock w 0) @ ''+'' @ substring_from 7 (str36 (rng w 0))
       @ ''@'' @ domain"
  by (simp add: generateUniqueEmail_def Date_now_def Math_random_def)

text \<open>
  Claim C8, amended. The email is the prefix, \<^verbatim>\<open>+\<close>, the timestamp in decimal,
  \<^verbatim>\<open>+\<close>, the random suffix, \<^verbatim>\<open>@\<close> and the domain. Two calls with the same prefix
  and domain return different strings exactly when their timestamps differ or their
  random suffixes differ.
\<close>

theorem generateUniqueEmail_distinct_iff:
  "fst (generateUniqueEmail prefix domain w) =
     prefix @ ''+'' @ toString_int (clock w 0) @ ''+'' @ substring_from 7 (str36 (rng w 0))
       @ ''@'' @ domain
   \<and> (fst (generateUniqueEmail prefix domain w) \<noteq> fst (generateUniqueEmail prefix domain w')
        \<longleftrightarrow> clock w 0 \<noteq> clock w' 0
             \<or> substring_from 7 (str36 (rng w 0)) \<noteq> substring_from 7 (str36 (rng w' 0)))"
proof -
  let ?t = "toString_int (clock w 0)" and ?t' = "toString_int (clock w' 0)"
  let ?s = "substring_from 7 (str36 (rng w 0))" and ?s' = "substring_from 7 (str36 (rng w' 0))"
  have "(fst (generateUniqueEmail prefix domain w) = fst (generateUniqueEmail prefix domain w'))
          = (?t @ CHR ''+'' # ?s = ?t' @ CHR ''+'' # ?s')"
    by (simp add: generateUniqueEmail_eq)
  also have "\<dots> = (?t = ?t' \<and> ?s = ?s')"
    by (rule split_at_separator) (rule toString_int_no_plus)+
  also have "\<dots> = (clock w 0 = clock w' 0 \<and> ?s = ?s')"
    using toString_int_inj[of "clock w 0" "clock w' 0"] by auto
  finally have "(fst (generateUniqueEmail prefix domain w) = fst (generateUniqueEmail prefix domain w'))
          = (clock w 0 = clock w' 0 \<and> ?s = ?s')" .
  then show ?thesis using generateUniqueEmail_eq[of prefix domain w] by blast
qed

theorem generateUniqueEmail_distinct_iff_witness:
  "fst (generateUniqueEmail ''test'' ''example.com'' w0)
     = ''test+1700000000000+@example.com''
   \<and> fst (generateUniqueEmail ''test'' ''example.com'' w0)
       \<noteq> fst (generateUniqueEmail ''test'' ''example.com''
                (snd (generateUniqueEmail ''test'' ''example.com'' w0)))"
proof -
  let ?w1 = "snd (generateUniqueEmail ''test'' ''example.com'' w0)"
  note T = generateUniqueEmail_distinct_iff[of "''test''" "''example.com''" w0 ?w1]
  have c: "clock w0 0 \<noteq> clock ?w1 0"
    by (simp add: generateUniqueEmail_def Date_now_def Math_random_def w0_def)
  have t: "toString_int (clock w0 0) = ''1700000000000''"
    by (simp add: w0_def toString_int_def toString_nat.simps digit_char_eval)
  have s: "substring_from 7 (str36 (rng w0 0)) = []"
    by (simp add: w0_def substring_from_def)
  have "fst (generateUniqueEmail ''test'' ''example.com'' w0) = ''test+1700000000000+@example.com''"
    using conjunct1[OF T] by (simp add: t s)
  moreover have "fst (generateUniqueEmail ''test'' ''example.com'' w0)
       \<noteq> fst (generateUniqueEmail ''test'' ''example.com'' ?w1)"
    using conjunct2[OF T] c by blast
  ultimately show ?thesis by (rule conjI)
qed

text \<open>
  Two successive calls within one millisecond whose random numbers are \<open>0.5\<close> and
  \<open>0.25\<close>: both render with fewer than six digits, both suffixes are empty, and the two
  emails are the same string. Claim C8 as stated fails here.
\<close>

theorem generateUniqueEmail_collision:
  "fst (generateUniqueEmail ''test'' ''example.com'' w_same_ms) = ''test+1700000000000+@example.com''
   \<and> fst (generateUniqueEmail ''test'' ''example.com''
            (snd (generateUniqueEmail ''test'' ''example.com'' w_same_ms)))
       = ''test+1700000000000+@example.com''"
  apply (simp add: generateUniqueEmail_def Date_now_def Math_random_def)
  apply (simp add: w_same_ms_def substring_from_def toString_int_def toString_nat.simps digit_char_eval)
  done

subsection \<open>The padding loop\<close>

text \<open>
  The loop of \<^verbatim>\<open>generateSecurePassword\<close> returns for every length within the limit,
  with the password it was given extended and long enough; beyond the limit it raises
  \<^verbatim>\<open>RangeError\<close>, whatever the random numbers are.
\<close>

lemma maxStringLength_ge: "11 \<le> maxStringLength"
  by (simp add: maxStringLength_def)

lemma Math_random_digit:
  assumes "Math_random w = (r, w')"
  shows "scaled r 10 < 10"
  using assms by (auto simp: Math_random_def)

lemma Math_random_below:
  assumes "Math_random w = (r, w')" "0 < n"
  shows "scaled r n < n"
  using assms by (auto simp: Math_random_def)

lemma length_toString_nat_digit: "d < 10 \<Longrightarrow> length (toString_nat d) = 1"
  by (subst toString_nat.simps) simp

lemma pad_loop_returns:
  assumes "len = NaN \<or> len = NegInfinity \<or> (\<exists>q. len = Finite q \<and> q + 2 \<le> of_nat maxStringLength)"
    and "length p0 \<le> maxStringLength"
  shows "\<exists>p w'. pad_loop len p0 w = Inr (p, w') \<and> (\<exists>t. p = p0 @ t)
           \<and> \<not> js_less (length_of p) (Math_max (Finite 8) len)"
  using assms
proof (induction len p0 w rule: pad_loop.induct)
  case (1 len password w)
  show ?case
  proof (cases "js_less (length_of password) (Math_max (Finite 8) len)")
    case False
    then show ?thesis by (subst pad_loop.simps) simp
  next
    case True
    obtain r w1 where mr: "Math_random w = (r, w1)" by (cases "Math_random w")
    let ?grown = "password @ ''a'' @ toString_nat (scaled r 10) @ ''!''"
    have gl: "length ?grown = length password + 3"
      using Math_random_digit[OF mr] by (simp add: length_toString_nat_digit)
    have fits: "length ?grown \<le> maxStringLength"
    proof -
      have ten: "(8::rat) + 2 \<le> of_nat maxStringLength"
        by (simp add: maxStringLength_def)
      from True "1.prems"(1) obtain m :: rat where
        m: "of_nat (length password) < m" "m + 2 \<le> of_nat maxStringLength"
      proof (cases len)
        case (Finite q)
        with True "1.prems"(1) ten that[of "max 8 q"] show ?thesis
          by (auto simp: length_of_def)
      next
        case NegInfinity
        with True ten that[of 8] show ?thesis by (auto simp: length_of_def)
      qed (auto simp: length_of_def)
      then have "(of_nat (length password + 3) :: rat) < of_nat (maxStringLength + 1)"
        by simp
      then have "length password + 3 < maxStringLength + 1"
        by (simp only: of_nat_less_iff)
      then show ?thesis using gl by simp
    qed
    from "1.IH"[OF True mr[symmetric] _ "1.prems"(1) fits] fits obtain p w' where
      h: "pad_loop len ?grown w1 = Inr (p, w')" "\<exists>t. p = ?grown @ t"
         "\<not> js_less (length_of p) (Math_max (Finite 8) len)"
      by auto
    have "pad_loop len password w = Inr (p, w')"
      using True mr h(1) fits by (subst pad_loop.simps) simp
    moreover from h(2) have "\<exists>t. p = password @ t" by auto
    ultimately show ?thesis using h(3) by auto
  qed
qed


subsection \<open>Passwords\<close>

lemma base_length:
  "length (''Test'' @ slice_last 4 (toString_int now) @ ''!'' @ substring 2 4 s) \<le> maxStringLength"
proof -
  have "length (slice_last 4 (toString_int now)) \<le> 4" by (rule length_slice_last)
  moreover have "length (substring 2 4 s) \<le> 2" by (simp add: substring_def)
  ultimately show ?thesis using maxStringLength_ge by simp
qed

lemma generateSecurePassword_unfold:
  "generateSecurePassword len options w =
     (case pad_loop len
             (''Test'' @ slice_last 4 (toString_int (clock w 0)) @ ''!''
                @ substring 2 4 (str36 (rng w 0)))
             (w\<lparr>clock := (\<lambda>k. clock w (Suc k)), rng := (\<lambda>k. rng w (Suc k))\<rparr>) of
        Inl e \<Rightarrow> Inl e
      | Inr (password', w3) \<Rightarrow>
          Inr (if js_less len (length_of password') \<and> js_less (Finite 8) len
               then substring 0 (position len password') password' else password', w3))"
  by (simp add: generateSecurePassword_def Date_now_def Math_random_def Let_def)



lemma generateSecurePassword_shape:
  assumes "8 \<le> n" "n + 2 \<le> int maxStringLength"
  shows "\<exists>p w' ts u. generateSecurePassword (Finite (of_int n)) options w = Inr (p, w')
            \<and> p = ''Test'' @ ts @ ''!'' @ u \<and> (\<exists>c \<in> set ts. is_digit c)
            \<and> (8 < n \<longrightarrow> int (length p) = n) \<and> 8 \<le> length p"
proof -
  let ?len = "Finite (of_int n)"
  define ts where "ts = slice_last 4 (toString_int (clock w 0))"
  define base where "base = ''Test'' @ ts @ ''!'' @ substring 2 4 (str36 (rng w 0))"
  let ?w2 = "w\<lparr>clock := (\<lambda>k. clock w (Suc k)), rng := (\<lambda>k. rng w (Suc k))\<rparr>"
  have lim: "?len = NaN \<or> ?len = NegInfinity
               \<or> (\<exists>q. ?len = Finite q \<and> q + 2 \<le> of_nat maxStringLength)"
  proof -
    have "(of_int (n + 2) :: rat) \<le> of_int (int maxStringLength)"
      using assms(2) by (simp only: of_int_le_iff)
    then show ?thesis by simp
  qed
  have bl: "length base \<le> maxStringLength" unfolding base_def ts_def by (rule base_length)
  from pad_loop_returns[OF lim bl, of ?w2] obtain q w3 t where
    pl: "pad_loop ?len base ?w2 = Inr (q, w3)" and q: "q = base @ t"
    and stop: "\<not> js_less (length_of q) (Math_max (Finite 8) ?len)"
    by blast
  from stop assms(1) have ql: "n \<le> int (length q)"
    by (simp add: length_of_def max_def split: if_splits)
  define p where "p = (if js_less ?len (length_of q) \<and> js_less (Finite 8) ?len
                       then substring 0 (position ?len q) q else q)"
  have res: "generateSecurePassword ?len options w = Inr (p, w3)"
    using pl by (simp add: generateSecurePassword_unfold ts_def base_def p_def)
  have t1: "js_less ?len (length_of q) = (n < int (length q))"
  proof -
    have "((of_int n :: rat) < of_nat (length q)) = (n < int (length q))"
      by (metis of_int_less_iff of_int_of_nat_eq)
    then show ?thesis by (simp add: length_of_def)
  qed
  have t2: "js_less (Finite 8) ?len = (8 < n)"
  proof -
    have "((8 :: rat) < of_int n) = (8 < n)"
      by (metis of_int_less_iff of_int_numeral)
    then show ?thesis by simp
  qed
  have p_eq: "p = (if n < int (length q) \<and> 8 < n then take (nat n) q else q)"
    unfolding p_def t1 t2 by (auto simp: substring_def min_def)
  have tsl: "length ts \<le> 4" by (simp add: ts_def length_slice_last)
  have tsd: "\<exists>c \<in> set ts. is_digit c"
    unfolding ts_def by (rule slice_last_digit[OF toString_int_nonempty last_toString_int_digit])
  let ?h = "''Test'' @ ts @ ''!''"
  have qh: "q = ?h @ (substring 2 4 (str36 (rng w 0)) @ t)" by (simp add: q base_def)
  have hl: "length ?h \<le> 9" using tsl by simp
  have "\<exists>u. p = ''Test'' @ ts @ ''!'' @ u"
  proof (cases "n < int (length q) \<and> 8 < n")
    case True
    then have "p = take (nat n) q" by (simp add: p_eq)
    also have "\<dots> = ?h @ take (nat n - length ?h) (substring 2 4 (str36 (rng w 0)) @ t)"
    proof -
      have "length ?h \<le> nat n" using True hl by linarith
      then show ?thesis by (subst qh, subst take_append) simp
    qed
    finally show ?thesis by simp
  next
    case False
    then have "p = q" unfolding p_eq by auto
    then show ?thesis by (simp add: qh)
  qed
  moreover have "8 < n \<longrightarrow> int (length p) = n"
    using ql by (auto simp: p_eq)
  moreover have "8 \<le> length p"
    using ql assms(1) by (auto simp: p_eq)
  ultimately show ?thesis using res tsd by blast
qed

lemma upper_T: "is_upper CHR ''T''"
  by (simp add: is_upper_def)

lemma lower_e: "is_lower CHR ''e''"
  by (simp add: is_lower_def)

lemma special_bang: "is_special CHR ''!''"
  by (simp add: is_special_def is_upper_def is_lower_def is_digit_def)

text \<open>
  Claim C3, amended. For every integer length \<open>L \<ge> 8\<close> that leaves room for a round of
  padding below the longest string, \<^verbatim>\<open>generateSecurePassword(L)\<close> returns a string
  with at least one uppercase letter, one lowercase letter, one digit and one character
  that is none of these; its length is exactly \<open>L\<close> when \<open>L > 8\<close> and at least 8 when
  \<open>L \<le> 8\<close>. This holds whatever the clock and the random numbers are.
\<close>

theorem generateSecurePassword_policy:
  assumes "8 \<le> n" and "n + 2 \<le> int maxStringLength"
  shows "\<exists>p w'. generateSecurePassword (Finite (of_int n)) options w = Inr (p, w')
            \<and> (\<exists>c \<in> set p. is_upper c) \<and> (\<exists>c \<in> set p. is_lower c)
            \<and> (\<exists>c \<in> set p. is_digit c) \<and> (\<exists>c \<in> set p. is_special c)
            \<and> (8 < n \<longrightarrow> int (length p) = n) \<and> (n \<le> 8 \<longrightarrow> 8 \<le> length p)"
proof -
  from generateSecurePassword_shape[OF assms, of options w] obtain p w' ts u where
    h: "generateSecurePassword (Finite (of_int n)) options w = Inr (p, w')"
       "p = ''Test'' @ ts @ ''!'' @ u"
       "\<exists>c \<in> set ts. is_digit c" "8 < n \<longrightarrow> int (length p) = n" "8 \<le> length p"
    by blast
  have "\<exists>c \<in> set p. is_upper c" using upper_T by (auto simp: h(2))
  moreover have "\<exists>c \<in> set p. is_lower c" using lower_e by (auto simp: h(2))
  moreover have "\<exists>c \<in> set p. is_digit c" using h(3) by (auto simp: h(2))
  moreover have "\<exists>c \<in> set p. is_special c" using special_bang by (auto simp: h(2))
  ultimately show ?thesis using h(1,4,5) by blast
qed

theorem generateSecurePassword_policy_witness:
  "(\<exists>p w'. generateSecurePassword (Finite 12) (JObj []) w0 = Inr (p, w')
       \<and> (\<exists>c \<in> set p. is_upper c) \<and> (\<exists>c \<in> set p. is_lower c)
       \<and> (\<exists>c \<in> set p. is_digit c) \<and> (\<exists>c \<in> set p. is_special c)
       \<and> length p = 12)
   \<and> (\<exists>p w'. generateSecurePassword (Finite 8) (JObj []) w0 = Inr (p, w')
       \<and> (\<exists>c \<in> set p. is_upper c) \<and> (\<exists>c \<in> set p. is_lower c)
       \<and> (\<exists>c \<in> set p. is_digit c) \<and> (\<exists>c \<in> set p. is_special c)
       \<and> 8 \<le> length p)"
  using generateSecurePassword_policy [of 12 "JObj []" w0]
        generateSecurePassword_policy [of 8 "JObj []" w0]
  by (simp add: maxStringLength_def)

text \<open>
  The loop on a concrete password, one round at a time.
\<close>

lemma pad_loop_stop:
  "\<not> js_less (length_of p) (Math_max (Finite 8) len) \<Longrightarrow> pad_loop len p w = Inr (p, w)"
  by (subst pad_loop.simps) simp

lemma pad_loop_more:
  "js_less (length_of p) (Math_max (Finite 8) len) \<Longrightarrow>
   length p + 3 \<le> maxStringLength \<Longrightarrow>
   pad_loop len p w =
     pad_loop len (p @ ''a'' @ toString_nat (scaled (rng w 0) 10 mod 10) @ ''!'')
       (w\<lparr>rng := (\<lambda>k. rng w (Suc k))\<rparr>)"
  by (subst pad_loop.simps) (simp add: Math_random_def length_toString_nat_digit)

lemma floor_17_halves: "\<lfloor>17 / 2 :: rat\<rfloor> = 8"
  by (simp add: floor_eq_iff)

text \<open>
  Claim C3 as stated fails at a length that is not an integer. For \<open>L = 8.5\<close>, at a
  timestamp that ends in \<^verbatim>\<open>0000\<close> and the random number \<open>0.5\<close>: the password built
  is \<^verbatim>\<open>Test0000!i\<close>, ten characters, so the loop adds nothing; it is longer than
  \<open>L\<close> and \<open>L > 8\<close>, so it is cut by \<^verbatim>\<open>substring(0, 8.5)\<close>, which keeps eight
  characters. The result has no character other than letters and digits, and its length
  is not \<open>L\<close>.
\<close>

theorem generateSecurePassword_fraction:
  "map_sum id fst (generateSecurePassword (Finite (17 / 2)) (JObj []) w0) = Inr ''Test0000''"
  apply (simp add: generateSecurePassword_unfold)
  apply (simp add: w0_def)
  apply (simp add: slice_last_def toString_int_def toString_nat.simps digit_char_eval
      substring_def)
  apply (simp add: pad_loop_stop length_of_def)
  apply (simp add: length_of_def substring_def floor_17_halves)
  done

text \<open>
  Claim C10. \<^verbatim>\<open>generateSecurePassword\<close> ignores its \<open>options\<close> argument: with the same
  length, clock and random numbers, any two options values (of any types) give the same
  outcome and leave the same world.
\<close>

theorem generateSecurePassword_ignores_options:
  "generateSecurePassword len options1 w = generateSecurePassword len options2 w"
  by (simp add: generateSecurePassword_def)

subsection \<open>User data\<close>

text \<open>
  \<^verbatim>\<open>generateUserData({firstName: "John"})\<close> in the world \<open>w0\<close>: the field
  \<^verbatim>\<open>confirmPassword\<close> of the result is null, which is not a non-empty default. Claim
  C5 as stated fails here.
\<close>

theorem generateUserData_John_w0:
  "map_sum id fst (generateUserData (JObj [(''firstName'', JStr ''John'')]) w0)
     = Inr (JObj [(''email'', JStr ''test+1700000000000+@example.com''),
                  (''password'', JStr ''Test0001!ia5''),
                  (''confirmPassword'', JNull),
                  (''firstName'', JStr ''John''),
                  (''lastName'', JStr ''Automated''),
                  (''companyName'', JStr ''Smart Ltd''),
                  (''phone'', JStr ''+1-550-550-5500'')])"
  apply (simp add: generateUserData_def generateUniqueEmail_def generateSecurePassword_unfold
      Date_now_def Math_random_def Let_def)
  apply (simp add: w0_def)
  apply (simp add: slice_last_def toString_int_def toString_nat.simps digit_char_eval
      substring_def substring_from_def)
  apply (simp add: pad_loop_more length_of_def maxStringLength_def)
  apply (simp add: toString_nat.simps digit_char_eval)
  apply (simp add: pad_loop_stop length_of_def substring_def)
  apply (simp add: generateCompanyName_def generatePhoneNumber_def Math_random_def
      interpolate_at_def toString_nat.simps digit_char_eval js_or_def obj_get_def
      Object_prototype_def spread_def)
  apply (simp add: w0_def toString_int_def toString_nat.simps digit_char_eval substring_from_def)
  done

lemma generateUserData_shape:
  assumes "overrides = (if arg = JUndefined then JObj [] else arg)" and "arg \<noteq> JNull"
  shows "\<exists>email password companyName phone w'.
     generateUserData arg w =
       Inr (JObj (spread
               [(''email'', JStr email),
                (''password'', JStr password),
                (''confirmPassword'', JNull),
                (''firstName'', js_or (named_member overrides ''firstName'') (JStr ''TestUser'')),
                (''lastName'', js_or (named_member overrides ''lastName'') (JStr ''Automated'')),
                (''companyName'', JStr companyName),
                (''phone'', JStr phone)]
               (enumerable_props overrides)), w')
     \<and> email \<noteq> [] \<and> password \<noteq> [] \<and> companyName \<noteq> [] \<and> phone \<noteq> []"
proof -
  obtain email w1 where e: "generateUniqueEmail ''test'' ''example.com'' w = (email, w1)"
    by (cases "generateUniqueEmail ''test'' ''example.com'' w")
  have "(8::int) \<le> 12" "(12::int) + 2 \<le> int maxStringLength"
    by (simp_all add: maxStringLength_def)
  from generateSecurePassword_shape[OF this, of "JObj []" w1]
  obtain p w2 where p: "generateSecurePassword (Finite 12) (JObj []) w1 = Inr (p, w2)"
    and pl: "8 \<le> length p"
    by auto
  obtain c w3 where c: "generateCompanyName w2 = (c, w3)" by (cases "generateCompanyName w2")
  obtain n w4 where n: "generatePhoneNumber ''US'' w3 = (n, w4)" by (cases "generatePhoneNumber ''US'' w3")
  have nn: "overrides \<noteq> JNull" using assms by auto
  have "email \<noteq> []" using e by (auto simp: generateUniqueEmail_def split: prod.splits)
  moreover have "p \<noteq> []" using pl by auto
  moreover have "c \<noteq> []" using c by (auto simp: generateCompanyName_def Let_def split: prod.splits)
  moreover have "n \<noteq> []" using n by (auto simp: generatePhoneNumber_def split: prod.splits)
  moreover have "generateUserData arg w =
       Inr (JObj (spread
               [(''email'', JStr email),
                (''password'', JStr p),
                (''confirmPassword'', JNull),
                (''firstName'', js_or (named_member overrides ''firstName'') (JStr ''TestUser'')),
                (''lastName'', js_or (named_member overrides ''lastName'') (JStr ''Automated'')),
                (''companyName'', JStr c),
                (''phone'', JStr n)]
               (enumerable_props overrides)), w4)"
    using e p c n nn assms(1) by (simp add: generateUserData_def Let_def)
  ultimately show ?thesis by blast
qed

text \<open>
  Claim C5, amended. For every overrides object, every field named in it has the
  override value in the result. For \<^verbatim>\<open>{firstName: "John"}\<close> the result has
  \<^verbatim>\<open>firstName\<close> \<^verbatim>\<open>"John"\<close>, non-empty default strings for \<^verbatim>\<open>email\<close>,
  \<^verbatim>\<open>password\<close>, \<^verbatim>\<open>lastName\<close>, \<^verbatim>\<open>companyName\<close> and \<^verbatim>\<open>phone\<close>, and null for
  \<^verbatim>\<open>confirmPassword\<close>.
\<close>

theorem generateUserData_overrides_win:
  "(\<exists>u w'. generateUserData (JObj overrides) w = Inr (JObj u, w')
       \<and> (\<forall>k v. map_of overrides k = Some v \<longrightarrow> map_of u k = Some v))
   \<and> (\<exists>email password companyName phone w'.
         generateUserData (JObj [(''firstName'', JStr ''John'')]) w =
           Inr (JObj [(''email'', JStr email),
                      (''password'', JStr password),
                      (''confirmPassword'', JNull),
                      (''firstName'', JStr ''John''),
                      (''lastName'', JStr ''Automated''),
                      (''companyName'', JStr companyName),
                      (''phone'', JStr phone)], w')
         \<and> email \<noteq> [] \<and> password \<noteq> [] \<and> companyName \<noteq> [] \<and> phone \<noteq> [])"
proof
  from generateUserData_shape[of "JObj overrides" "JObj overrides" w] obtain u w' where
    "generateUserData (JObj overrides) w = Inr (JObj (spread u overrides), w')" by auto
  moreover have "\<forall>k v. map_of overrides k = Some v \<longrightarrow> map_of (spread u overrides) k = Some v"
    by (simp add: map_of_spread map_add_def)
  ultimately show "\<exists>u w'. generateUserData (JObj overrides) w = Inr (JObj u, w')
       \<and> (\<forall>k v. map_of overrides k = Some v \<longrightarrow> map_of u k = Some v)" by blast
next
  show "\<exists>email password companyName phone w'.
         generateUserData (JObj [(''firstName'', JStr ''John'')]) w =
           Inr (JObj [(''email'', JStr email),
                      (''password'', JStr password),
                      (''confirmPassword'', JNull),
                      (''firstName'', JStr ''John''),
                      (''lastName'', JStr ''Automated''),
                      (''companyName'', JStr companyName),
                      (''phone'', JStr phone)], w')
         \<and> email \<noteq> [] \<and> password \<noteq> [] \<and> companyName \<noteq> [] \<and> phone \<noteq> []"
    using generateUserData_shape[of "JObj [(''firstName'', JStr ''John'')]"
        "JObj [(''firstName'', JStr ''John'')]" w]
    by (simp add: spread_def js_or_def obj_get_def Object_prototype_def)
qed

theorem generateUserData_overrides_win_witness:
  "\<exists>u w'. generateUserData (JObj [(''email'', JStr ''taken@example.com''), (''nickname'', JNull)]) w0
              = Inr (JObj u, w')
     \<and> map_of u ''email'' = Some (JStr ''taken@example.com'')
     \<and> map_of u ''nickname'' = Some JNull"
proof -
  let ?ov = "[(''email'', JStr ''taken@example.com''), (''nickname'', JNull)]"
  from generateUserData_overrides_win[of ?ov w0] obtain u w' where
    h: "generateUserData (JObj ?ov) w0 = Inr (JObj u, w')"
       "\<forall>k v. map_of ?ov k = Some v \<longrightarrow> map_of u k = Some v"
    by blast
  have "map_of u ''email'' = Some (JStr ''taken@example.com'')" using h(2) by simp
  moreover have "map_of u ''nickname'' = Some JNull" using h(2) by simp
  ultimately show ?thesis using h(1) by blast
qed

subsection \<open>Which calls return\<close>



lemma length_interpolate_at:
  "i < length xs \<Longrightarrow> interpolate_at xs i = xs ! i"
  by (simp add: interpolate_at_def)










section \<open>Properties of the malformed-payload catalog\<close>

text \<open>
  Claim C4 at the tags \<^verbatim>\<open>constructor\<close> and \<^verbatim>\<open>toString\<close>, which are not tags of the
  catalog: the lookup finds the member that every object inherits, which is truthy, and
  returns it instead of the \<^verbatim>\<open>emptyObject\<close> template.
\<close>

theorem createMalformedData_inherited:
  "createMalformedData ''constructor'' = JNative ''Object''
   \<and> createMalformedData ''toString'' = JNative ''Object.prototype.toString''"
  by (simp add: createMalformedData_def js_or_def obj_get_def templates_def Object_prototype_def)

text \<open>
  The rest of the claim holds: the tag \<^verbatim>\<open>missingPassword\<close> gives its template, and a
  tag that is neither in the catalog nor a member of \<^verbatim>\<open>Object.prototype\<close> gives the
  empty object.
\<close>

lemma createMalformedData_missingPassword:
  "createMalformedData ''missingPassword'' = JObj [(''userName'', JStr ''validUser'')]"
  by (simp add: createMalformedData_def js_or_def obj_get_def templates_def)

lemma createMalformedData_unknown:
  assumes "map_of templates t = None" "map_of Object_prototype t = None"
  shows "createMalformedData t = JObj []"
  using assms by (simp add: createMalformedData_def js_or_def obj_get_def) (simp add: templates_def)

section \<open>Properties of the request command\<close>

text \<open>
  Claim C1 at a call that supplies one header: the request options carry the caller's
  \<^verbatim>\<open>headers\<close> object as it is, and none of the three default headers. The literal
  merges the defaults with the caller's headers first, and the spread of \<open>options\<close>
  written after it puts the caller's object back in place of the merge.
\<close>

theorem apiRequest_headers_overwritten:
  "requestOptions ''https://api.example.com'' ''post'' ''/account/v1/user''
       [(''headers'', JObj [(''Authorization'', JStr ''Bearer t'')])]
     = [(''method'', JStr ''POST''),
        (''url'', JStr ''https://api.example.com/account/v1/user''),
        (''headers'', JObj [(''Authorization'', JStr ''Bearer t'')]),
        (''failOnStatusCode'', JBool False)]"
  by (simp add: requestOptions_def spread_def toUpperCase_def toUpperCase_char_def is_lower_def
      obj_get_def defaultHeaders_def char_of_def bit_Suc_0_iff)

text \<open>
  In general the issued headers are the caller's whenever the options have a
  \<^verbatim>\<open>headers\<close> property, and the defaults when they have none.
\<close>

lemma requestOptions_headers_given:
  "map_of options ''headers'' = Some h \<Longrightarrow>
   map_of (requestOptions baseUrl meth endpoint options) ''headers'' = Some h"
  by (simp add: requestOptions_def map_of_spread map_add_def)

lemma requestOptions_headers_absent:
  "map_of options ''headers'' = None \<Longrightarrow>
   map_of (requestOptions baseUrl meth endpoint options) ''headers'' = Some (JObj defaultHeaders)"
  by (simp add: requestOptions_def map_of_spread map_add_def obj_get_def Object_prototype_def spread_Nil)

lemma failOnStatusCode_requestOptions:
  "failOnStatusCode (requestOptions baseUrl meth endpoint options)
     = (\<not> leaves_failOnStatusCode_off options)"
proof (cases "map_of options ''failOnStatusCode''")
  case None
  then show ?thesis
    by (simp add: failOnStatusCode_def leaves_failOnStatusCode_off_def requestOptions_def
        map_of_spread map_add_def)
next
  case (Some v)
  then show ?thesis
    by (cases v) (simp_all add: failOnStatusCode_def leaves_failOnStatusCode_off_def
        requestOptions_def map_of_spread map_add_def)
qed

lemma apiRequest_unfold:
  assumes "leaves_failOnStatusCode_off options"
  shows "apiRequest meth endpoint options w =
           (case net w 0 (JObj (requestOptions (apiBaseUrl w) meth endpoint options)) of
              Inl reason \<Rightarrow> Inl (TransportError reason)
            | Inr rp \<Rightarrow> Inr (response_of rp, w\<lparr>net := (\<lambda>k. net w (Suc k))\<rparr>))"
  using assms
  by (simp add: apiRequest_def cy_request_def failOnStatusCode_requestOptions split: sum.splits)

text \<open>
  A call whose options set \<^verbatim>\<open>failOnStatusCode\<close> to true, answered with status 404:
  the spread of the options undoes the suppression and the request raises on the
  status. Claim C2 as stated (for every options bag) fails here.
\<close>

theorem apiRequest_failOnStatusCode_counterexample:
  "apiRequest ''POST'' ''/account/v1/user'' [(''failOnStatusCode'', JBool True)] w404
     = Inl (StatusCodeError 404)"
  by (simp add: apiRequest_def cy_request_def w404_def requestOptions_def spread_def
      failOnStatusCode_def isOkStatusCode_def)

text \<open>
  Claim C2, amended. For every options bag that leaves \<^verbatim>\<open>failOnStatusCode\<close> off and
  for every reply of the server, whatever its status code, the request returns the
  response and does not raise; when the transport fails, the request raises that
  failure, with its reason.
\<close>

theorem apiRequest_status_never_raises:
  assumes "leaves_failOnStatusCode_off options"
  shows "apiRequest meth endpoint options w =
           (case net w 0 (JObj (requestOptions (apiBaseUrl w) meth endpoint options)) of
              Inl reason \<Rightarrow> Inl (TransportError reason)
            | Inr rp \<Rightarrow> Inr (response_of rp, w\<lparr>net := (\<lambda>k. net w (Suc k))\<rparr>))"
  using assms by (rule apiRequest_unfold)

theorem apiRequest_status_never_raises_witness:
  "leaves_failOnStatusCode_off [(''body'', JObj [])]
   \<and> map_sum id fst (apiRequest ''POST'' ''/account/v1/user'' [(''body'', JObj [])] w404)
       = Inr (JObj [(''status'', JNum 404), (''headers'', JObj []), (''body'', JObj [])])
   \<and> apiRequest ''POST'' ''/account/v1/user'' [(''body'', JObj [])] w0
       = Inl (TransportError ''ECONNREFUSED'')"
proof -
  have off: "leaves_failOnStatusCode_off [(''body'', JObj [])]"
    by (simp add: leaves_failOnStatusCode_off_def)
  have "map_sum id fst (apiRequest ''POST'' ''/account/v1/user'' [(''body'', JObj [])] w404)
       = Inr (JObj [(''status'', JNum 404), (''headers'', JObj []), (''body'', JObj [])])"
    by (simp add: apiRequest_status_never_raises [OF off] w404_def response_of_def)
  moreover have "apiRequest ''POST'' ''/account/v1/user'' [(''body'', JObj [])] w0
       = Inl (TransportError ''ECONNREFUSED'')"
    by (simp add: apiRequest_status_never_raises [OF off] w0_def)
  ultimately show ?thesis using off by simp
qed

section \<open>Properties of the validator\<close>

lemma first_unmet_Cons:
  "first_unmet (c # cs) =
     and_then (case c of None \<Rightarrow> Inr () | Some a \<Rightarrow> Inl (AssertionError a)) (first_unmet cs)"
  by (cases c) (simp_all add: and_then_def)















section \<open>Properties of the rate-limit probe\<close>














end
